theory Spec2Isabelle
  imports Complex_Main
begin

section \<open>Data model\<close>

text \<open>
  The intake pipeline of \<^verbatim>\<open>bot.py\<close> (class \<^verbatim>\<open>Graha\<close>) and the prefix resolver of
  \<^verbatim>\<open>utilities/prefix.py\<close>. Mutation of the bot object is explicit state passing; every
  outward action (invoking a command, a log record, a webhook send, a reaction, a reply)
  is an element of the list of effects a handler returns. An effect is the call made: a
  send that fails is in the list, and the exception it raises is the first component of
  the handler's result. Timestamps and clock readings are exact rationals.
\<close>

datatype py_error =
    KeyError
  | IndexError
  | AssertionError
  | TooManyArguments string
  | WebhookHTTPException

record user =
  user_id :: int
  display_name :: string
  is_bot :: bool

record message =
  author :: user
  guild :: "int option"
  channel :: int
  content :: string
  created_at :: rat
  embeds :: "string list"

text \<open>
  \<^verbatim>\<open>Context\<close>: the message it was built for, the command it resolved (or none), its ray id
  and the \<^verbatim>\<open>exc_handled\<close> flag. \<^verbatim>\<open>ctx.author\<close> and \<^verbatim>\<open>ctx.guild\<close> are those of the message.
\<close>

record command_context =
  ctx_message :: message
  ctx_command :: "string option"
  ray_id :: string
  exc_handled :: bool

definition ctx_author :: "command_context \<Rightarrow> user" where
  "ctx_author ctx = author (ctx_message ctx)"

definition ctx_guild :: "command_context \<Rightarrow> int option" where
  "ctx_guild ctx = guild (ctx_message ctx)"

subsection \<open>The key-value store\<close>

text \<open>
  Modelled from the spec: \<^verbatim>\<open>utilities/async_config.py\<close> (class \<^verbatim>\<open>Config\<close>) is not among the
  sources. The spec gives the persistence collaborator as a key-value store with
  \<^verbatim>\<open>get(key)\<close>, \<^verbatim>\<open>put(key, value)\<close> and \<^verbatim>\<open>remove(key)\<close>; the callers in \<^verbatim>\<open>bot.py\<close> also
  use \<^verbatim>\<open>get(key, default)\<close> and \<^verbatim>\<open>key in config\<close>, and catch \<^verbatim>\<open>KeyError\<close> around \<^verbatim>\<open>remove\<close>,
  so removing an absent key raises it. The callers pass a numeric id or its decimal
  string for the same entry; the model keys the store by the numeric id.
\<close>

type_synonym 'v config = "int \<rightharpoonup> 'v"

definition config_get :: "'v config \<Rightarrow> int \<Rightarrow> 'v option" where
  "config_get c k = c k"

definition config_get_default :: "'v config \<Rightarrow> int \<Rightarrow> 'v \<Rightarrow> 'v" where
  "config_get_default c k d = (case c k of None \<Rightarrow> d | Some v \<Rightarrow> v)"

definition config_put :: "'v config \<Rightarrow> int \<Rightarrow> 'v \<Rightarrow> 'v config" where
  "config_put c k v = c(k \<mapsto> v)"

definition config_remove :: "'v config \<Rightarrow> int \<Rightarrow> py_error + 'v config" where
  "config_remove c k = (case c k of None \<Rightarrow> Inl KeyError | Some v \<Rightarrow> Inr (c(k := None)))"

definition config_contains :: "'v config \<Rightarrow> int \<Rightarrow> bool" where
  "config_contains c k = (case c k of None \<Rightarrow> False | Some v \<Rightarrow> True)"

subsection \<open>The cooldown bucket\<close>

text \<open>
  Modelled from the spec: the rate limiter is \<^verbatim>\<open>commands.CooldownMapping\<close> of the discord
  library, which is not among the sources. The spec's CooldownBucket is the state
  \<^verbatim>\<open>{window_start, count, capacity, period}\<close>, created lazily on the first event of a
  caller. On each check: if the event time falls outside the current window, the count
  is reset to 0 and the window starts at the event time; the count is incremented; if
  it exceeds the capacity the event is throttled with
  \<^verbatim>\<open>retry_after = window_start + period - event_time\<close>, else it is allowed. A caller
  is throttled until \<^verbatim>\<open>window_start + period\<close>, so the window is the half-open interval
  from \<^verbatim>\<open>window_start\<close> up to \<^verbatim>\<open>window_start + period\<close>. The field \<^verbatim>\<open>last\<close> is the time
  of the latest check, by which an idle bucket is recognised.
\<close>

record cooldown =
  window_start :: rat
  count :: nat
  capacity :: nat
  period :: rat
  last :: rat

definition from_cooldown :: "nat \<Rightarrow> rat \<Rightarrow> rat \<Rightarrow> cooldown" where
  "from_cooldown cap per t =
     \<lparr>window_start = t, count = 0, capacity = cap, period = per, last = t\<rparr>"

definition in_window :: "cooldown \<Rightarrow> rat \<Rightarrow> bool" where
  "in_window b t = (window_start b \<le> t \<and> t < window_start b + period b)"

definition update_rate_limit :: "cooldown \<Rightarrow> rat \<Rightarrow> rat option \<times> cooldown" where
  "update_rate_limit b t =
     (let b1 = (if in_window b t then b else b\<lparr>window_start := t, count := 0\<rparr>);
          b2 = b1\<lparr>count := count b1 + 1, last := t\<rparr>
      in (if capacity b2 < count b2 then Some (window_start b2 + period b2 - t) else None, b2))"

text \<open>
  Modelled from the spec: a bucket is garbage-collected when idle. The sweep drops every
  bucket whose latest check lies more than a period before the clock reading \<open>now\<close>.
\<close>

definition verify_cache_integrity :: "rat \<Rightarrow> (int \<rightharpoonup> cooldown) \<Rightarrow> (int \<rightharpoonup> cooldown)" where
  "verify_cache_integrity now cache =
     (\<lambda>k. case cache k of
            None \<Rightarrow> None
          | Some b \<Rightarrow> if last b + period b < now then None else Some b)"

text \<open>
  Modelled from the spec: \<^verbatim>\<open>CooldownMapping.get_bucket\<close> belongs to the discord library.
  \<^verbatim>\<open>get_bucket(message)\<close> is called without a time, so the mapping reads the wall clock
  \<open>now\<close>: it first sweeps the idle buckets, then returns the bucket of the message's
  author (the mapping is built with \<^verbatim>\<open>BucketType.user\<close>), creating and storing a new one
  if there is none. The result is the bucket and the mapping afterwards.
\<close>

definition get_bucket ::
  "nat \<Rightarrow> rat \<Rightarrow> rat \<Rightarrow> (int \<rightharpoonup> cooldown) \<Rightarrow> message \<Rightarrow> rat
     \<Rightarrow> cooldown option \<times> (int \<rightharpoonup> cooldown)" where
  "get_bucket rate per now cache m t =
     (let cache1 = verify_cache_integrity now cache in
      case cache1 (user_id (author m)) of
        None \<Rightarrow>
          (let b = from_cooldown rate per t in (Some b, cache1(user_id (author m) \<mapsto> b)))
      | Some b \<Rightarrow> (Some b, cache1))"

text \<open>Python's truth value of an optional float: \<^verbatim>\<open>None\<close> and \<^verbatim>\<open>0.0\<close> are false.\<close>

definition truthy :: "rat option \<Rightarrow> bool" where
  "truthy r = (case r of None \<Rightarrow> False | Some x \<Rightarrow> x \<noteq> 0)"

subsection \<open>The bot\<close>

text \<open>
  The fields of \<^verbatim>\<open>Graha\<close> the pipeline reads and writes. \<^verbatim>\<open>_spammer_count\<close> is a
  \<^verbatim>\<open>Counter\<close>: a dictionary whose missing keys read as 0. \<^verbatim>\<open>owner_id\<close> is \<^verbatim>\<open>None\<close> until
  \<^verbatim>\<open>setup_hook\<close> has run. \<^verbatim>\<open>user_mentions\<close> are the mention forms of the bot's own user.
\<close>

record graha =
  prefix_data :: "string list config"
  blacklist_data :: "bool config"
  spam_cooldown_mapping :: "int \<rightharpoonup> cooldown"
  spammer_count :: "int \<rightharpoonup> int"
  error_handling_cooldown :: "int \<rightharpoonup> cooldown"
  owner_id :: "int option"
  user_mentions :: "string list"

datatype effect =
    Invoke command_context
  | LogWarning int "int option" rat
  | WebhookAutoblock int "int option" int
  | AddReaction message
  | LogException string string
  | WebhookCommandError string int string
  | Send string

text \<open>
  \<^verbatim>\<open>LogWarning\<close> is the "is spamming" record of \<^verbatim>\<open>_log_spammer\<close> (author id, guild id,
  \<^verbatim>\<open>retry_after\<close>), \<^verbatim>\<open>WebhookAutoblock\<close> its "Autoblocked Member" embed (author id, guild id,
  channel id); \<^verbatim>\<open>LogException\<close> is \<^verbatim>\<open>LOGGER.exception\<close> (command name, ray id),
  \<^verbatim>\<open>WebhookCommandError\<close> the "Command Error" embed (command name, author id, ray id of the
  footer), \<^verbatim>\<open>Send\<close> is \<^verbatim>\<open>ctx.send\<close>, \<^verbatim>\<open>AddReaction\<close> the cross mark on the message.
\<close>

section \<open>Prefixes\<close>

text \<open>
  Modelled from the spec: \<^verbatim>\<open>commands.when_mentioned_or\<close> belongs to the discord library;
  it yields the mention forms of the bot together with the prefixes it is given.
\<close>

definition when_mentioned_or :: "graha \<Rightarrow> string list \<Rightarrow> string list" where
  "when_mentioned_or self prefixes = user_mentions self @ prefixes"

text \<open>
  \<^verbatim>\<open>callable_prefix\<close> of \<^verbatim>\<open>utilities/prefix.py\<close>. \<^verbatim>\<open>str.casefold\<close> on the first character is
  the parameter \<open>casefold\<close>; \<^verbatim>\<open>display_name[0]\<close> raises \<^verbatim>\<open>IndexError\<close> on an empty name.
\<close>

definition callable_prefix ::
  "(char \<Rightarrow> string) \<Rightarrow> graha \<Rightarrow> message \<Rightarrow> py_error + string list" where
  "callable_prefix casefold self m =
     (case display_name (author m) of
        [] \<Rightarrow> Inl IndexError
      | c # cs \<Rightarrow>
          (let username_prefix = casefold c @ '' '' in
           case guild m of
             None \<Rightarrow> Inr (when_mentioned_or self [''gt '', username_prefix])
           | Some g \<Rightarrow>
               (let guild_prefixes =
                      (case config_get (prefix_data self) g of
                         None \<Rightarrow> [''gt '']
                       | Some ps \<Rightarrow> if ps = [] then [''gt ''] else ps)
                in Inr (when_mentioned_or self (guild_prefixes @ [username_prefix])))))"

text \<open>\<^verbatim>\<open>_get_guild_prefixes\<close> with \<^verbatim>\<open>raw=True\<close>.\<close>

definition get_guild_prefixes_raw :: "graha \<Rightarrow> int \<Rightarrow> string list" where
  "get_guild_prefixes_raw self g = config_get_default (prefix_data self) g [''gt '']"

text \<open>
  \<^verbatim>\<open>_set_guild_prefixes\<close>: the result is the exception raised, if any, and the bot
  afterwards.
\<close>

definition set_guild_prefixes ::
  "graha \<Rightarrow> int \<Rightarrow> string list option \<Rightarrow> (py_error + unit) \<times> graha" where
  "set_guild_prefixes self g prefixes =
     (case prefixes of
        None \<Rightarrow> (Inr (), self\<lparr>prefix_data := config_put (prefix_data self) g []\<rparr>)
      | Some ps \<Rightarrow>
          if ps = [] then (Inr (), self\<lparr>prefix_data := config_put (prefix_data self) g []\<rparr>)
          else if length ps > 10
            then (Inl (TooManyArguments ''Cannot have more than 10 custom prefixes.''), self)
          else (Inr (), self\<lparr>prefix_data := config_put (prefix_data self) g ps\<rparr>))"

section \<open>Blocklist\<close>

definition blacklist_add :: "graha \<Rightarrow> int \<Rightarrow> graha" where
  "blacklist_add self object_id =
     self\<lparr>blacklist_data := config_put (blacklist_data self) object_id True\<rparr>"

definition blacklist_remove :: "graha \<Rightarrow> int \<Rightarrow> py_error + graha" where
  "blacklist_remove self object_id =
     (case config_remove (blacklist_data self) object_id of
        Inl e \<Rightarrow> if e = KeyError then Inr self else Inl e
      | Inr c \<Rightarrow> Inr (self\<lparr>blacklist_data := c\<rparr>))"

text \<open>The test \<^verbatim>\<open>object_id in self._blacklist_data\<close> of \<^verbatim>\<open>process_commands\<close>.\<close>

definition is_blocked :: "graha \<Rightarrow> int \<Rightarrow> bool" where
  "is_blocked self object_id = config_contains (blacklist_data self) object_id"

section \<open>Intake\<close>

text \<open>
  What a handler reads from its surroundings: the wall clock (\<^verbatim>\<open>time.time()\<close>) and
  whether a send to the logging webhook returns; when it does not, the send raises
  \<^verbatim>\<open>discord.HTTPException\<close>.
\<close>

record env =
  clock :: rat
  webhook_up :: bool

text \<open>
  Modelled from the spec: \<^verbatim>\<open>get_context\<close> is the command resolver of the discord library.
  It produces the bound invocation or no match; here the resolver is the parameter
  \<open>resolve\<close>, and the context it returns is bound to the message.
\<close>

definition get_context ::
  "(graha \<Rightarrow> message \<Rightarrow> command_context) \<Rightarrow> graha \<Rightarrow> message \<Rightarrow> command_context" where
  "get_context resolve self m = (resolve self m)\<lparr>ctx_message := m\<rparr>"

definition log_spammer :: "command_context \<Rightarrow> message \<Rightarrow> rat \<Rightarrow> bool \<Rightarrow> effect list" where
  "log_spammer ctx m retry_after autoblock =
     LogWarning (user_id (author m)) (ctx_guild ctx) retry_after #
     (if \<not> autoblock then []
      else [WebhookAutoblock (user_id (author m)) (ctx_guild ctx) (channel m)])"

text \<open>
  \<^verbatim>\<open>process_commands\<close>: the exception that escapes it, if any, the effects in order, and
  the bot afterwards. In the autoblock branch the id is put on the blocklist, then the
  webhook send is awaited, and only when it has returned is the entry of the counter
  deleted; when the send raises, the exception escapes with the entry still there.
\<close>

definition process_commands ::
  "(graha \<Rightarrow> message \<Rightarrow> command_context) \<Rightarrow> env \<Rightarrow> graha \<Rightarrow> message
     \<Rightarrow> py_error option \<times> effect list \<times> graha" where
  "process_commands resolve e self m =
     (let ctx = get_context resolve self m in
      if ctx_command ctx = None then (None, [], self)
      else if config_contains (blacklist_data self) (user_id (ctx_author ctx))
        then (None, [], self)
      else if (case ctx_guild ctx of None \<Rightarrow> False
               | Some g \<Rightarrow> config_contains (blacklist_data self) g) then (None, [], self)
      else
        case get_bucket 10 12 (clock e) (spam_cooldown_mapping self) m (created_at m) of
          (None, cache) \<Rightarrow> (None, [], self\<lparr>spam_cooldown_mapping := cache\<rparr>)
        | (Some bucket, cache) \<Rightarrow>
            (let current = created_at m;
                 a = user_id (author m);
                 (retry_after, bucket') = update_rate_limit bucket current;
                 self1 = self\<lparr>spam_cooldown_mapping := cache(a \<mapsto> bucket')\<rparr>;
                 clean = (None, [Invoke ctx],
                          self1\<lparr>spammer_count := (spammer_count self1)(a := None)\<rparr>)
             in case retry_after of
                  None \<Rightarrow> clean
                | Some r \<Rightarrow>
                    if r \<noteq> 0 \<and> Some a \<noteq> owner_id self then
                      (let n = (case spammer_count self1 a of None \<Rightarrow> 0 | Some k \<Rightarrow> k) + 1;
                           self2 = self1\<lparr>spammer_count := (spammer_count self1)(a \<mapsto> n)\<rparr>
                       in if n \<ge> 5 then
                            (let self3 = blacklist_add self2 a in
                             if webhook_up e then
                               (None, log_spammer ctx m r True,
                                self3\<lparr>spammer_count := (spammer_count self3)(a := None)\<rparr>)
                             else (Some WebhookHTTPException, log_spammer ctx m r True, self3))
                          else (None, log_spammer ctx m r False, self2))
                    else clean))"

definition on_message ::
  "(graha \<Rightarrow> message \<Rightarrow> command_context) \<Rightarrow> env \<Rightarrow> graha \<Rightarrow> message
     \<Rightarrow> py_error option \<times> effect list \<times> graha" where
  "on_message resolve e self m =
     (if is_bot (author m) then (None, [], self) else process_commands resolve e self m)"

definition on_message_edit ::
  "(graha \<Rightarrow> message \<Rightarrow> command_context) \<Rightarrow> env \<Rightarrow> graha \<Rightarrow> message \<Rightarrow> message
     \<Rightarrow> py_error option \<times> effect list \<times> graha" where
  "on_message_edit resolve e self before after =
     (if Some (user_id (author after)) = owner_id self then
        (if embeds before = [] \<and> embeds after \<noteq> [] then (None, [], self)
         else process_commands resolve e self after)
      else (None, [], self))"

section \<open>Error reporting\<close>

text \<open>
  The errors \<^verbatim>\<open>on_command_error\<close> tells apart. An exception raised inside a command body
  reaches it wrapped in \<^verbatim>\<open>CommandInvokeError\<close>, with the exception as \<^verbatim>\<open>original\<close>; every
  error that is none of the three named classes is \<^verbatim>\<open>OtherCommandError\<close>.
\<close>

datatype exception = HTTPException | OtherException string

datatype command_error =
    NoPrivateMessage
  | DisabledCommand
  | CommandInvokeError exception
  | OtherCommandError string

text \<open>
  \<^verbatim>\<open>CooldownMapping.update_rate_limit(message)\<close> of the self-cooldown (1 per 5), at the
  clock reading \<open>now\<close>: the retry period and the mapping afterwards.
\<close>

definition error_cooldown_update ::
  "graha \<Rightarrow> message \<Rightarrow> rat \<Rightarrow> rat option \<times> graha" where
  "error_cooldown_update self m now =
     (case get_bucket 1 5 now (error_handling_cooldown self) m now of
        (None, cache) \<Rightarrow> (None, self\<lparr>error_handling_cooldown := cache\<rparr>)
      | (Some bucket, cache) \<Rightarrow>
          (let (retry_period, bucket') = update_rate_limit bucket now
           in (retry_period,
               self\<lparr>error_handling_cooldown := cache(user_id (author m) \<mapsto> bucket')\<rparr>)))"

text \<open>
  \<^verbatim>\<open>on_command_error\<close>: the exception it raises itself, if any (the assertion on
  \<^verbatim>\<open>ctx.command\<close>), the effects in order, and the bot afterwards. In the three named
  branches the string \<^verbatim>\<open>ret\<close> is extended and the function returns; only the last path
  sends \<^verbatim>\<open>ret\<close>, which is then empty before the quote line is added.
\<close>

definition on_command_error ::
  "graha \<Rightarrow> rat \<Rightarrow> command_context \<Rightarrow> command_error
     \<Rightarrow> py_error option \<times> effect list \<times> graha" where
  "on_command_error self now ctx error =
     (let reaction = [AddReaction (ctx_message ctx)] in
      if exc_handled ctx then (None, reaction, self)
      else
        case ctx_command ctx of
          None \<Rightarrow> (Some AssertionError, reaction, self)
        | Some name \<Rightarrow>
            (case error of
               NoPrivateMessage \<Rightarrow>
                 (None, reaction, snd (error_cooldown_update self (ctx_message ctx) now))
             | DisabledCommand \<Rightarrow>
                 (None, reaction, snd (error_cooldown_update self (ctx_message ctx) now))
             | CommandInvokeError origin \<Rightarrow>
                 (None,
                  reaction @
                    (if origin \<noteq> HTTPException then [LogException name (ray_id ctx)] else []),
                  self)
             | OtherCommandError e \<Rightarrow>
                 (let ret = [] @ CHR 0x0A # ''Quote 'Ray ID: '' @ ray_id ctx
                              @ ''' if contacting the developer.''
                  in (None,
                      reaction @
                        [WebhookCommandError name (user_id (ctx_author ctx)) (ray_id ctx),
                         Send ret],
                      self))))"

section \<open>The event stream\<close>

text \<open>
  Modelled from the spec: the gateway feed and the administrative surface are not among
  the sources. Events are consumed one at a time in arrival order: a new message, an
  edit (the message before and after), each with the surroundings in which it is
  handled, and the administrative calls that add an id to the blocklist or remove one.
  An exception that escapes a handler does not stop the feed: the next event is handled
  in the state the handler left.
\<close>

datatype event =
    Message env message
  | MessageEdit env message message
  | BlacklistAdd int
  | BlacklistRemove int

fun handle ::
  "(graha \<Rightarrow> message \<Rightarrow> command_context) \<Rightarrow> graha \<Rightarrow> event
     \<Rightarrow> py_error option \<times> effect list \<times> graha" where
  "handle resolve self (Message e m) = on_message resolve e self m"
| "handle resolve self (MessageEdit e before after) =
     on_message_edit resolve e self before after"
| "handle resolve self (BlacklistAdd k) = (None, [], blacklist_add self k)"
| "handle resolve self (BlacklistRemove k) =
     (None, [], case blacklist_remove self k of Inl x \<Rightarrow> self | Inr self' \<Rightarrow> self')"

text \<open>The effects of a handler's result, and the bot it leaves.\<close>

abbreviation effects :: "py_error option \<times> effect list \<times> graha \<Rightarrow> effect list" where
  "effects r \<equiv> fst (snd r)"

abbreviation state_of :: "py_error option \<times> effect list \<times> graha \<Rightarrow> graha" where
  "state_of r \<equiv> snd (snd r)"

text \<open>The bot after a list of events, and the effects of each event of the list.\<close>

fun state_after ::
  "(graha \<Rightarrow> message \<Rightarrow> command_context) \<Rightarrow> graha \<Rightarrow> event list \<Rightarrow> graha" where
  "state_after resolve self [] = self"
| "state_after resolve self (ev # evs) =
     state_after resolve (state_of (handle resolve self ev)) evs"

fun effects_of ::
  "(graha \<Rightarrow> message \<Rightarrow> command_context) \<Rightarrow> graha \<Rightarrow> event list \<Rightarrow> effect list list" where
  "effects_of resolve self [] = []"
| "effects_of resolve self (ev # evs) =
     effects (handle resolve self ev) # effects_of resolve (state_of (handle resolve self ev)) evs"

section \<open>Construction\<close>

text \<open>
  \<^verbatim>\<open>Graha.__init__\<close> with empty configuration files, and \<^verbatim>\<open>setup_hook\<close>, which records the
  owner of the application.
\<close>

definition graha_init :: "string list \<Rightarrow> graha" where
  "graha_init mentions =
     \<lparr>prefix_data = Map.empty, blacklist_data = Map.empty,
      spam_cooldown_mapping = Map.empty, spammer_count = Map.empty,
      error_handling_cooldown = Map.empty, owner_id = None, user_mentions = mentions\<rparr>"

definition setup_hook :: "graha \<Rightarrow> int \<Rightarrow> graha" where
  "setup_hook self owner = self\<lparr>owner_id := Some owner\<rparr>"

section \<open>Notions used in the statements\<close>

text \<open>
  What the rate limiter answers for a message handled in given surroundings and state:
  the bucket of the author, as \<^verbatim>\<open>get_bucket\<close> finds or creates it, updated at the
  message's timestamp. A message is throttled when the answer is a true value in
  Python's sense.
\<close>

definition rate_check :: "env \<Rightarrow> graha \<Rightarrow> message \<Rightarrow> rat option \<times> cooldown" where
  "rate_check e self m =
     update_rate_limit
       (case verify_cache_integrity (clock e) (spam_cooldown_mapping self) (user_id (author m)) of
          None \<Rightarrow> from_cooldown 10 12 (created_at m)
        | Some b \<Rightarrow> b)
       (created_at m)"

definition throttled :: "env \<Rightarrow> graha \<Rightarrow> message \<Rightarrow> bool" where
  "throttled e self m = truthy (fst (rate_check e self m))"

text \<open>Reading the \<^verbatim>\<open>Counter\<close>: a missing key counts 0.\<close>

definition violations :: "graha \<Rightarrow> int \<Rightarrow> int" where
  "violations self a = (case spammer_count self a of None \<Rightarrow> 0 | Some n \<Rightarrow> n)"

text \<open>
  A message gets as far as the rate limiter: a command resolves, and neither the author
  nor the guild is blocked.
\<close>

definition reaches_limiter ::
  "(graha \<Rightarrow> message \<Rightarrow> command_context) \<Rightarrow> graha \<Rightarrow> message \<Rightarrow> bool" where
  "reaches_limiter resolve self m =
     (ctx_command (resolve self m) \<noteq> None
      \<and> \<not> is_blocked self (user_id (author m))
      \<and> (case guild m of None \<Rightarrow> True | Some g \<Rightarrow> \<not> is_blocked self g))"

text \<open>An event that comes from the caller \<open>k\<close>: its author, or its guild, has the id \<open>k\<close>.\<close>

fun from_caller :: "int \<Rightarrow> event \<Rightarrow> bool" where
  "from_caller k (Message e m) = (user_id (author m) = k \<or> guild m = Some k)"
| "from_caller k (MessageEdit e before after) =
     (user_id (author after) = k \<or> guild after = Some k)"
| "from_caller k (BlacklistAdd j) = False"
| "from_caller k (BlacklistRemove j) = False"

text \<open>
  The message an event hands to \<^verbatim>\<open>process_commands\<close>, with its surroundings: a new message
  whose author is not a bot account, or an edit by the owner that is not the appearance
  of embeds. Every other event hands over none.
\<close>

fun command_message :: "int option \<Rightarrow> event \<Rightarrow> (env \<times> message) option" where
  "command_message owner (Message e m) = (if is_bot (author m) then None else Some (e, m))"
| "command_message owner (MessageEdit e before after) =
     (if Some (user_id (author after)) = owner \<and> \<not> (embeds before = [] \<and> embeds after \<noteq> [])
      then Some (e, after) else None)"
| "command_message owner (BlacklistAdd k) = None"
| "command_message owner (BlacklistRemove k) = None"

text \<open>The messages of the caller \<open>a\<close> that a list of events hands to \<^verbatim>\<open>process_commands\<close>.\<close>

definition caller_messages :: "int option \<Rightarrow> int \<Rightarrow> event list \<Rightarrow> message list" where
  "caller_messages owner a evs =
     filter (\<lambda>m. user_id (author m) = a) (map snd (List.map_filter (command_message owner) evs))"

text \<open>
  An event of the caller \<open>a\<close> that the rate limiter checks in the state \<open>self\<close>; one that
  it checks and throttles; one that it checks and does not throttle (a clean event).
\<close>

definition checked_event ::
  "(graha \<Rightarrow> message \<Rightarrow> command_context) \<Rightarrow> int \<Rightarrow> graha \<Rightarrow> event \<Rightarrow> bool" where
  "checked_event resolve a self ev =
     (case command_message (owner_id self) ev of
        None \<Rightarrow> False
      | Some (e, m) \<Rightarrow> user_id (author m) = a \<and> reaches_limiter resolve self m)"

definition throttled_event ::
  "(graha \<Rightarrow> message \<Rightarrow> command_context) \<Rightarrow> int \<Rightarrow> graha \<Rightarrow> event \<Rightarrow> bool" where
  "throttled_event resolve a self ev =
     (case command_message (owner_id self) ev of
        None \<Rightarrow> False
      | Some (e, m) \<Rightarrow>
          user_id (author m) = a \<and> reaches_limiter resolve self m \<and> throttled e self m)"

definition clean_event ::
  "(graha \<Rightarrow> message \<Rightarrow> command_context) \<Rightarrow> int \<Rightarrow> graha \<Rightarrow> event \<Rightarrow> bool" where
  "clean_event resolve a self ev =
     (case command_message (owner_id self) ev of
        None \<Rightarrow> False
      | Some (e, m) \<Rightarrow>
          user_id (author m) = a \<and> reaches_limiter resolve self m \<and> \<not> throttled e self m)"

text \<open>
  How many events of a list satisfy \<open>P\<close>, each judged in the state in which it arrives.
\<close>

fun count_events ::
  "(graha \<Rightarrow> event \<Rightarrow> bool) \<Rightarrow> (graha \<Rightarrow> message \<Rightarrow> command_context) \<Rightarrow> graha \<Rightarrow> event list
     \<Rightarrow> nat" where
  "count_events P resolve self [] = 0"
| "count_events P resolve self (ev # evs) =
     (if P self ev then 1 else 0) + count_events P resolve (state_of (handle resolve self ev)) evs"

fun is_invoke :: "effect \<Rightarrow> bool" where
  "is_invoke (Invoke ctx) = True"
| "is_invoke x = False"

fun is_autoblock :: "int \<Rightarrow> effect \<Rightarrow> bool" where
  "is_autoblock a (WebhookAutoblock u g c) = (u = a)"
| "is_autoblock a x = False"

fun is_reply :: "effect \<Rightarrow> bool" where
  "is_reply (Send c) = True"
| "is_reply x = False"

fun is_webhook_diagnostic :: "effect \<Rightarrow> bool" where
  "is_webhook_diagnostic (WebhookCommandError n a r) = True"
| "is_webhook_diagnostic x = False"


text \<open>
  A stored bucket has room for the messages \<open>ms\<close> still to come: none of them is before
  its window, and with those that fall in its window the count stays within 10.
\<close>

definition has_room :: "cooldown option \<Rightarrow> message list \<Rightarrow> bool" where
  "has_room stored ms =
     (case stored of
        None \<Rightarrow> True
      | Some b \<Rightarrow>
          capacity b = 10 \<and> period b = 12
          \<and> list_all (\<lambda>m. window_start b \<le> created_at m) ms
          \<and> count b + length (filter (\<lambda>m. created_at m < window_start b + 12) ms) \<le> 10)"

section \<open>Sample inputs\<close>

definition ascii_casefold :: "char \<Rightarrow> string" where
  "ascii_casefold c =
     (let n = (of_char c :: nat) in if 65 \<le> n \<and> n \<le> 90 then [char_of (n + 32)] else [c])"

definition sample_message :: "int \<Rightarrow> int option \<Rightarrow> rat \<Rightarrow> message" where
  "sample_message uid g t =
     \<lparr>author = \<lparr>user_id = uid, display_name = ''Graha'', is_bot = False\<rparr>,
      guild = g, channel = 7, content = ''gt ping'', created_at = t, embeds = []\<rparr>"

definition sample_resolve :: "graha \<Rightarrow> message \<Rightarrow> command_context" where
  "sample_resolve self m =
     \<lparr>ctx_message = m, ctx_command = Some ''ping'', ray_id = ''ray-1'', exc_handled = False\<rparr>"

definition sample_bot :: graha where
  "sample_bot = setup_hook (graha_init [''<@99> '', ''<@!99> '']) 1"

text \<open>Surroundings with the wall clock at \<open>t\<close> and the webhook reachable.\<close>

definition sample_env :: "rat \<Rightarrow> env" where
  "sample_env t = \<lparr>clock = t, webhook_up = True\<rparr>"

text \<open>The sample bot after ten allowed events of caller \<open>a\<close> at time 0: the bucket is full.\<close>

definition sample_exhausted :: "int \<Rightarrow> graha" where
  "sample_exhausted a =
     sample_bot\<lparr>spam_cooldown_mapping :=
       [a \<mapsto> \<lparr>window_start = 0, count = 10, capacity = 10, period = 12, last = 0\<rparr>]\<rparr>"

definition sample_bot_message :: message where
  "sample_bot_message =
     \<lparr>author = \<lparr>user_id = 8, display_name = ''Relay'', is_bot = True\<rparr>,
      guild = None, channel = 7, content = ''gt ping'', created_at = 0, embeds = []\<rparr>"

text \<open>A message of the owner that carries an embed, and a message sent in guild 40.\<close>

definition sample_embedded :: message where
  "sample_embedded = (sample_message 1 None 0)\<lparr>embeds := [''card'']\<rparr>"

definition sample_guild_message :: message where
  "sample_guild_message = sample_message 2 (Some 40) 0"

text \<open>Eleven custom prefixes.\<close>

definition sample_prefixes :: "string list" where
  "sample_prefixes = replicate 11 ''! ''"

text \<open>
  Five messages of one caller at time 1, inside the window of the full bucket; and four
  such messages of caller 2 with a message of caller 3, an administrative call and a
  bot's message between them.
\<close>

definition sample_burst :: "int \<Rightarrow> event list" where
  "sample_burst a = replicate 5 (Message (sample_env 1) (sample_message a None 1))"

definition sample_mixed :: "event list" where
  "sample_mixed =
     [Message (sample_env 1) (sample_message 2 None 1),
      Message (sample_env 1) (sample_message 3 None 1),
      Message (sample_env 1) (sample_message 2 None 1),
      BlacklistAdd 9,
      Message (sample_env 1) (sample_message 2 None 1),
      Message (sample_env 1) sample_bot_message,
      Message (sample_env 1) (sample_message 2 None 1)]"




section \<open>The blocklist round trip\<close>

lemma config_contains_put: "config_contains (config_put c k v) k"
  by (simp add: config_contains_def config_put_def)

lemma config_remove_absent: "\<not> config_contains c k \<Longrightarrow> config_remove c k = Inl KeyError"
  by (simp add: config_contains_def config_remove_def split: option.splits)

lemma config_remove_present:
  "config_contains c k \<Longrightarrow> config_remove c k = Inr (c(k := None))"
  by (simp add: config_contains_def config_remove_def split: option.splits)

lemma blacklist_remove_absent: "\<not> is_blocked self k \<Longrightarrow> blacklist_remove self k = Inr self"
  by (simp add: is_blocked_def blacklist_remove_def config_remove_absent)

lemma blacklist_remove_present:
  "is_blocked self k \<Longrightarrow>
   blacklist_remove self k = Inr (self\<lparr>blacklist_data := (blacklist_data self)(k := None)\<rparr>)"
  by (simp add: is_blocked_def blacklist_remove_def config_remove_present)

lemma is_blocked_add: "is_blocked (blacklist_add self k) j = (j = k \<or> is_blocked self j)"
  by (simp add: is_blocked_def blacklist_add_def config_contains_def config_put_def)

text \<open>
  C9. For every id: after \<^verbatim>\<open>_blacklist_add(id)\<close> the id is blocked; \<^verbatim>\<open>_blacklist_remove(id)\<close>
  returns normally whether or not the id is present, and afterwards the id is not
  blocked; on an absent id it returns normally and leaves the bot as it was.
\<close>

theorem blacklist_round_trip:
  "is_blocked (blacklist_add self k) k
   \<and> (\<exists>self'. blacklist_remove self k = Inr self' \<and> \<not> is_blocked self' k)
   \<and> (\<exists>self'. blacklist_remove (blacklist_add self k) k = Inr self' \<and> \<not> is_blocked self' k)
   \<and> (\<not> is_blocked self k \<longrightarrow> blacklist_remove self k = Inr self)"
proof (intro conjI impI)
  show "is_blocked (blacklist_add self k) k"
    by (simp add: is_blocked_add)
next
  show "\<exists>self'. blacklist_remove self k = Inr self' \<and> \<not> is_blocked self' k"
  proof (cases "is_blocked self k")
    case True
    then show ?thesis
      by (simp add: blacklist_remove_present) (simp add: is_blocked_def config_contains_def)
  next
    case False
    then show ?thesis
      by (simp add: blacklist_remove_absent)
  qed
next
  have "is_blocked (blacklist_add self k) k"
    by (simp add: is_blocked_add)
  then show "\<exists>self'. blacklist_remove (blacklist_add self k) k = Inr self' \<and> \<not> is_blocked self' k"
    by (simp add: blacklist_remove_present) (simp add: is_blocked_def config_contains_def)
next
  assume "\<not> is_blocked self k"
  then show "blacklist_remove self k = Inr self"
    by (rule blacklist_remove_absent)
qed

theorem blacklist_round_trip_witness:
  "\<not> is_blocked sample_bot 5
   \<and> is_blocked (blacklist_add sample_bot 5) 5
   \<and> blacklist_remove sample_bot 5 = Inr sample_bot
   \<and> (\<exists>self'. blacklist_remove (blacklist_add sample_bot 5) 5 = Inr self'
          \<and> \<not> is_blocked self' 5)"
proof -
  have absent: "\<not> is_blocked sample_bot 5"
    by (simp add: sample_bot_def setup_hook_def graha_init_def is_blocked_def
        config_contains_def)
  with blacklist_round_trip [of sample_bot 5] show ?thesis
    by simp
qed

section \<open>One step of the pipeline\<close>

lemma get_context_simps [simp]:
  "ctx_command (get_context r s m) = ctx_command (r s m)"
  "ctx_author (get_context r s m) = author m"
  "ctx_guild (get_context r s m) = guild m"
  "ctx_message (get_context r s m) = m"
  by (simp_all add: get_context_def ctx_author_def ctx_guild_def)

lemma pc_no_command:
  "ctx_command (resolve self m) = None \<Longrightarrow> process_commands resolve e self m = (None, [], self)"
  by (simp add: process_commands_def Let_def)

lemma pc_blocked_author:
  "is_blocked self (user_id (author m)) \<Longrightarrow> process_commands resolve e self m = (None, [], self)"
  by (simp add: process_commands_def Let_def is_blocked_def)

lemma pc_blocked_guild:
  "guild m = Some g \<Longrightarrow> is_blocked self g \<Longrightarrow>
   process_commands resolve e self m = (None, [], self)"
  by (simp add: process_commands_def Let_def is_blocked_def)

lemma pc_unreached:
  "\<not> reaches_limiter resolve self m \<Longrightarrow> process_commands resolve e self m = (None, [], self)"
  by (auto simp add: reaches_limiter_def pc_no_command pc_blocked_author pc_blocked_guild
      split: option.splits)

text \<open>
  The mapping after a check of a message of \<open>a\<close>: swept at the clock reading, with the
  updated bucket of \<open>a\<close>.
\<close>

lemma pc_clean:
  assumes "reaches_limiter resolve self m"
    and "\<not> (throttled e self m \<and> Some (user_id (author m)) \<noteq> owner_id self)"
  shows "process_commands resolve e self m =
           (None, [Invoke (get_context resolve self m)],
            self\<lparr>spam_cooldown_mapping :=
                   (verify_cache_integrity (clock e) (spam_cooldown_mapping self))
                     (user_id (author m) \<mapsto> snd (rate_check e self m)),
                 spammer_count := (spammer_count self)(user_id (author m) := None)\<rparr>)"
  using assms
  by (auto simp add: process_commands_def reaches_limiter_def is_blocked_def throttled_def
      rate_check_def get_bucket_def truthy_def Let_def split: option.splits prod.splits)

lemma pc_throttled:
  assumes "reaches_limiter resolve self m"
    and "fst (rate_check e self m) = Some r" and "r \<noteq> 0"
    and "Some (user_id (author m)) \<noteq> owner_id self"
    and "violations self (user_id (author m)) + 1 < 5"
  shows "process_commands resolve e self m =
           (None, [LogWarning (user_id (author m)) (guild m) r],
            self\<lparr>spam_cooldown_mapping :=
                   (verify_cache_integrity (clock e) (spam_cooldown_mapping self))
                     (user_id (author m) \<mapsto> snd (rate_check e self m)),
                 spammer_count := (spammer_count self)(user_id (author m) \<mapsto>
                    violations self (user_id (author m)) + 1)\<rparr>)"
  using assms
  by (auto simp add: process_commands_def reaches_limiter_def is_blocked_def violations_def
      rate_check_def get_bucket_def log_spammer_def Let_def split: option.splits prod.splits)

lemma pc_autoblock:
  assumes "reaches_limiter resolve self m"
    and "fst (rate_check e self m) = Some r" and "r \<noteq> 0"
    and "Some (user_id (author m)) \<noteq> owner_id self"
    and "5 \<le> violations self (user_id (author m)) + 1"
    and "webhook_up e"
  shows "process_commands resolve e self m =
           (None,
            [LogWarning (user_id (author m)) (guild m) r,
             WebhookAutoblock (user_id (author m)) (guild m) (channel m)],
            self\<lparr>spam_cooldown_mapping :=
                   (verify_cache_integrity (clock e) (spam_cooldown_mapping self))
                     (user_id (author m) \<mapsto> snd (rate_check e self m)),
                 blacklist_data := config_put (blacklist_data self) (user_id (author m)) True,
                 spammer_count := (spammer_count self)(user_id (author m) := None)\<rparr>)"
  using assms
  by (auto simp add: process_commands_def reaches_limiter_def is_blocked_def violations_def
      rate_check_def get_bucket_def log_spammer_def blacklist_add_def Let_def
      split: option.splits prod.splits)

text \<open>When the send raises, the id is on the blocklist and the count stays.\<close>

lemma pc_autoblock_failed:
  assumes "reaches_limiter resolve self m"
    and "fst (rate_check e self m) = Some r" and "r \<noteq> 0"
    and "Some (user_id (author m)) \<noteq> owner_id self"
    and "5 \<le> violations self (user_id (author m)) + 1"
    and "\<not> webhook_up e"
  shows "process_commands resolve e self m =
           (Some WebhookHTTPException,
            [LogWarning (user_id (author m)) (guild m) r,
             WebhookAutoblock (user_id (author m)) (guild m) (channel m)],
            self\<lparr>spam_cooldown_mapping :=
                   (verify_cache_integrity (clock e) (spam_cooldown_mapping self))
                     (user_id (author m) \<mapsto> snd (rate_check e self m)),
                 blacklist_data := config_put (blacklist_data self) (user_id (author m)) True,
                 spammer_count := (spammer_count self)(user_id (author m) \<mapsto>
                    violations self (user_id (author m)) + 1)\<rparr>)"
  using assms
  by (auto simp add: process_commands_def reaches_limiter_def is_blocked_def violations_def
      rate_check_def get_bucket_def log_spammer_def blacklist_add_def Let_def
      split: option.splits prod.splits)

text \<open>The pipeline never takes an id off the blocklist and never changes the owner.\<close>

lemma pc_keeps_blocked:
  "is_blocked self k \<Longrightarrow> is_blocked (state_of (process_commands resolve e self m)) k"
  by (auto simp add: process_commands_def is_blocked_def blacklist_add_def config_put_def
      config_contains_def get_bucket_def Let_def split: option.splits prod.splits)

lemma pc_owner_id: "owner_id (state_of (process_commands resolve e self m)) = owner_id self"
  by (auto simp add: process_commands_def blacklist_add_def get_bucket_def Let_def
      split: option.splits prod.splits)

text \<open>
  A message of another author leaves the count and the blocking of a caller alone; the
  caller's bucket it leaves alone or, when it is idle at the clock reading, sweeps away.
\<close>

lemma process_commands_frame:
  assumes "user_id (author m) \<noteq> a"
  shows "(spam_cooldown_mapping (state_of (process_commands resolve e self m)) a
            = spam_cooldown_mapping self a
          \<or> spam_cooldown_mapping (state_of (process_commands resolve e self m)) a
            = verify_cache_integrity (clock e) (spam_cooldown_mapping self) a)
         \<and> spammer_count (state_of (process_commands resolve e self m)) a = spammer_count self a
         \<and> is_blocked (state_of (process_commands resolve e self m)) a = is_blocked self a"
  using assms
  by (auto simp add: process_commands_def is_blocked_def blacklist_add_def config_put_def
      config_contains_def get_bucket_def Let_def split: option.splits prod.splits)

text \<open>Every autoblock notice a message causes is about its author.\<close>

lemma pc_autoblock_author:
  "user_id (author m) \<noteq> a \<Longrightarrow>
   filter (is_autoblock a) (effects (process_commands resolve e self m)) = []"
  by (auto simp add: process_commands_def get_bucket_def log_spammer_def Let_def
      split: option.splits prod.splits)

lemma handle_command_message:
  "command_message (owner_id self) ev = Some (e, m) \<Longrightarrow>
   handle resolve self ev = process_commands resolve e self m"
  by (cases ev) (auto simp add: on_message_def on_message_edit_def split: if_splits)

lemma handle_no_command_message:
  "command_message (owner_id self) ev = None \<Longrightarrow>
   effects (handle resolve self ev) = []
   \<and> spam_cooldown_mapping (state_of (handle resolve self ev)) = spam_cooldown_mapping self
   \<and> spammer_count (state_of (handle resolve self ev)) = spammer_count self"
proof (cases ev)
  case (BlacklistRemove k)
  then show ?thesis
    by (cases "is_blocked self k")
       (simp_all add: blacklist_remove_present blacklist_remove_absent)
qed (auto simp add: on_message_def on_message_edit_def blacklist_add_def split: if_splits)

lemma handle_owner_id: "owner_id (state_of (handle resolve self ev)) = owner_id self"
proof (cases ev)
  case (BlacklistRemove k)
  then show ?thesis
    by (cases "is_blocked self k")
       (simp_all add: blacklist_remove_present blacklist_remove_absent)
qed (simp_all add: on_message_def on_message_edit_def pc_owner_id blacklist_add_def)

lemma state_after_owner_id: "owner_id (state_after resolve self evs) = owner_id self"
  by (induction evs arbitrary: self) (simp_all add: handle_owner_id)

lemma handle_keeps_blocked:
  assumes "is_blocked self k" and "ev \<noteq> BlacklistRemove k"
  shows "is_blocked (state_of (handle resolve self ev)) k"
proof (cases ev)
  case (Message e m)
  with assms show ?thesis
    by (simp add: on_message_def pc_keeps_blocked)
next
  case (MessageEdit e before after)
  with assms show ?thesis
    by (simp add: on_message_edit_def pc_keeps_blocked)
next
  case (BlacklistAdd j)
  with assms show ?thesis
    by (simp add: is_blocked_add)
next
  case (BlacklistRemove j)
  with assms have "j \<noteq> k" by simp
  with assms BlacklistRemove show ?thesis
    by (cases "is_blocked self j")
       (simp_all add: blacklist_remove_present blacklist_remove_absent,
        simp add: is_blocked_def config_contains_def)
qed

lemma state_after_keeps_blocked:
  "is_blocked self k \<Longrightarrow> BlacklistRemove k \<notin> set evs \<Longrightarrow>
   is_blocked (state_after resolve self evs) k"
proof (induction evs arbitrary: self)
  case Nil
  then show ?case by simp
next
  case (Cons ev evs)
  from Cons.prems have "is_blocked (state_of (handle resolve self ev)) k"
    by (intro handle_keeps_blocked) auto
  with Cons show ?case by simp
qed

lemma handle_dropped:
  assumes "is_blocked self k" and "from_caller k ev"
  shows "handle resolve self ev = (None, [], self)"
proof (cases ev)
  case (Message e m)
  with assms show ?thesis
    by (auto simp add: on_message_def pc_blocked_author pc_blocked_guild)
next
  case (MessageEdit e before after)
  with assms show ?thesis
    by (auto simp add: on_message_edit_def pc_blocked_author pc_blocked_guild)
qed (use assms in simp_all)

text \<open>
  C1. Once an id is on the blocklist, and as long as no \<^verbatim>\<open>_blacklist_remove\<close> of that id
  is among the events, every message (new or edited) whose author or guild has that id
  is dropped: handling it raises nothing, produces no effect at all (no invocation,
  reaction, reply, log record or webhook send) and leaves the whole state, with the
  cooldown buckets and the violation counts, as it was.
\<close>

theorem blocklisted_dropped:
  assumes "is_blocked self k"
    and "BlacklistRemove k \<notin> set evs"
    and "i < length evs"
    and "from_caller k (evs ! i)"
  shows "handle resolve (state_after resolve self (take i evs)) (evs ! i)
           = (None, [], state_after resolve self (take i evs))"
proof -
  from assms(2) have "BlacklistRemove k \<notin> set (take i evs)"
    by (auto dest: in_set_takeD)
  with assms(1) have "is_blocked (state_after resolve self (take i evs)) k"
    by (rule state_after_keeps_blocked)
  then show ?thesis
    using assms(4) by (rule handle_dropped)
qed

theorem blocklisted_dropped_witness:
  "is_blocked (blacklist_add sample_bot 5) 5
   \<and> BlacklistRemove 5 \<notin>
       set [Message (sample_env 0) (sample_message 5 None 0), BlacklistRemove 6,
            Message (sample_env 1) (sample_message 5 None 1)]
   \<and> from_caller 5
       ([Message (sample_env 0) (sample_message 5 None 0), BlacklistRemove 6,
         Message (sample_env 1) (sample_message 5 None 1)] ! 2)
   \<and> handle sample_resolve
         (state_after sample_resolve (blacklist_add sample_bot 5)
            (take 2 [Message (sample_env 0) (sample_message 5 None 0), BlacklistRemove 6,
                     Message (sample_env 1) (sample_message 5 None 1)]))
         ([Message (sample_env 0) (sample_message 5 None 0), BlacklistRemove 6,
           Message (sample_env 1) (sample_message 5 None 1)] ! 2)
       = (None, [], state_after sample_resolve (blacklist_add sample_bot 5)
            (take 2 [Message (sample_env 0) (sample_message 5 None 0), BlacklistRemove 6,
                     Message (sample_env 1) (sample_message 5 None 1)]))"
proof -
  let ?evs = "[Message (sample_env 0) (sample_message 5 None 0), BlacklistRemove 6,
               Message (sample_env 1) (sample_message 5 None 1)]"
  have h1: "is_blocked (blacklist_add sample_bot 5) 5"
    by (simp add: is_blocked_add)
  have h2: "BlacklistRemove 5 \<notin> set ?evs"
    by simp
  have h3: "(2::nat) < length ?evs"
    by simp
  have h4: "from_caller 5 (?evs ! 2)"
    by (simp add: sample_message_def)
  from blocklisted_dropped [OF h1 h2 h3 h4, of sample_resolve] h1 h2 h4 show ?thesis
    by blast
qed

text \<open>
  C10. A new message whose author is a bot account is not processed: handling it has
  no effect and changes nothing (no blocklist check, no rate-limit update, no violation
  count, no invocation).
\<close>

theorem bot_author_ignored:
  "is_bot (author m) \<Longrightarrow>
   on_message resolve e self m = (None, [], self)
   \<and> handle resolve self (Message e m) = (None, [], self)"
  by (simp add: on_message_def)

theorem bot_author_ignored_witness:
  "is_bot (author sample_bot_message)
   \<and> on_message sample_resolve (sample_env 0) sample_bot sample_bot_message
       = (None, [], sample_bot)
   \<and> handle sample_resolve sample_bot (Message (sample_env 0) sample_bot_message)
       = (None, [], sample_bot)"
proof -
  have h: "is_bot (author sample_bot_message)"
    by (simp add: sample_bot_message_def)
  from bot_author_ignored [OF h, of sample_resolve "sample_env 0" sample_bot] h show ?thesis
    by simp
qed

section \<open>The owner\<close>

lemma pc_owner:
  assumes "owner_id self = Some (user_id (author m))"
    and "reaches_limiter resolve self m"
  shows "process_commands resolve e self m =
           (None, [Invoke (get_context resolve self m)],
            self\<lparr>spam_cooldown_mapping :=
                   (verify_cache_integrity (clock e) (spam_cooldown_mapping self))
                     (user_id (author m) \<mapsto> snd (rate_check e self m)),
                 spammer_count := (spammer_count self)(user_id (author m) := None)\<rparr>)"
  using assms by (intro pc_clean) simp_all

lemma owner_run_state:
  assumes "owner_id self = Some a"
    and "\<forall>p\<in>set ems. user_id (author (snd p)) = a \<and> \<not> is_bot (author (snd p))"
    and "\<forall>s. \<forall>p\<in>set ems. ctx_command (resolve s (snd p)) \<noteq> None"
    and "\<not> is_blocked self a"
    and "\<forall>p\<in>set ems. \<forall>g. guild (snd p) = Some g \<longrightarrow> \<not> is_blocked self g"
  shows "owner_id (state_after resolve self (map (\<lambda>p. Message (fst p) (snd p)) ems)) = Some a
         \<and> blacklist_data (state_after resolve self (map (\<lambda>p. Message (fst p) (snd p)) ems))
             = blacklist_data self"
  using assms
proof (induction ems arbitrary: self)
  case Nil
  then show ?case by simp
next
  case (Cons p ems)
  obtain e m where p: "p = (e, m)" by (cases p)
  let ?s = "state_of (on_message resolve e self m)"
  have reach: "reaches_limiter resolve self m"
    using Cons.prems p by (auto simp add: reaches_limiter_def split: option.splits)
  have own: "owner_id self = Some (user_id (author m))"
    using Cons.prems p by simp
  have step: "on_message resolve e self m =
          (None, [Invoke (get_context resolve self m)],
            self\<lparr>spam_cooldown_mapping :=
                   (verify_cache_integrity (clock e) (spam_cooldown_mapping self))
                     (user_id (author m) \<mapsto> snd (rate_check e self m)),
                 spammer_count := (spammer_count self)(user_id (author m) := None)\<rparr>)"
    using Cons.prems p pc_owner [OF own reach] by (simp add: on_message_def)
  have o: "owner_id ?s = Some a" and b: "blacklist_data ?s = blacklist_data self"
    using Cons.prems(1) by (simp_all add: step)
  have blocked_eq: "\<And>k. is_blocked ?s k = is_blocked self k"
    by (simp add: is_blocked_def b)
  have "owner_id (state_after resolve ?s (map (\<lambda>p. Message (fst p) (snd p)) ems)) = Some a
         \<and> blacklist_data (state_after resolve ?s (map (\<lambda>p. Message (fst p) (snd p)) ems))
             = blacklist_data ?s"
    using Cons.prems o by (intro Cons.IH) (simp_all add: blocked_eq)
  then show ?case
    by (simp add: b p)
qed

text \<open>
  C7. While the owner is not on the blocklist, every message of the owner that resolves
  to a command is dispatched, whatever the rate limiter answers: the bucket of the owner
  is updated by the check, the violation count of the owner is cleared, and the
  blocklist stays as it was, through any number of the owner's messages, each handled in
  surroundings of its own.
\<close>

theorem owner_exempt:
  assumes "owner_id self = Some a"
    and "\<forall>p\<in>set ems. user_id (author (snd p)) = a \<and> \<not> is_bot (author (snd p))"
    and "\<forall>s. \<forall>p\<in>set ems. ctx_command (resolve s (snd p)) \<noteq> None"
    and "\<not> is_blocked self a"
    and "\<forall>p\<in>set ems. \<forall>g. guild (snd p) = Some g \<longrightarrow> \<not> is_blocked self g"
    and "i < length ems"
    and "s = state_after resolve self (map (\<lambda>p. Message (fst p) (snd p)) (take i ems))"
    and "e = fst (ems ! i)" and "m = snd (ems ! i)"
    and "s' = state_of (handle resolve s (Message e m))"
  shows "fst (handle resolve s (Message e m)) = None
         \<and> effects (handle resolve s (Message e m)) = [Invoke (get_context resolve s m)]
         \<and> spam_cooldown_mapping s' a = Some (snd (rate_check e s m))
         \<and> violations s' a = 0
         \<and> blacklist_data s' = blacklist_data self
         \<and> \<not> is_blocked s' a"
proof -
  have sub: "\<And>p. p \<in> set (take i ems) \<Longrightarrow> p \<in> set ems"
    by (rule in_set_takeD)
  have inv: "owner_id s = Some a \<and> blacklist_data s = blacklist_data self"
    unfolding assms(7) using assms(1-5) sub
    by (intro owner_run_state) (blast+)
  have mem: "ems ! i \<in> set ems"
    using assms(6) by simp
  have blocked_eq: "\<And>k. is_blocked s k = is_blocked self k"
    by (simp add: is_blocked_def inv)
  have reach: "reaches_limiter resolve s m"
    using assms(2-5) mem
    by (auto simp add: reaches_limiter_def blocked_eq assms(9) split: option.splits)
  have a: "user_id (author m) = a" and nb: "\<not> is_bot (author m)"
    using assms(2) mem by (simp_all add: assms(9))
  have own: "owner_id s = Some (user_id (author m))"
    using inv a by simp
  have step: "on_message resolve e s m =
          (None, [Invoke (get_context resolve s m)],
            s\<lparr>spam_cooldown_mapping :=
                   (verify_cache_integrity (clock e) (spam_cooldown_mapping s))
                     (user_id (author m) \<mapsto> snd (rate_check e s m)),
                 spammer_count := (spammer_count s)(user_id (author m) := None)\<rparr>)"
    using nb pc_owner [OF own reach] by (simp add: on_message_def)
  show ?thesis
    using inv assms(4)
    by (simp add: assms(10) step a violations_def is_blocked_def)
qed

theorem owner_exempt_witness:
  "owner_id (sample_exhausted 1) = Some 1
   \<and> throttled (sample_env 0) (sample_exhausted 1) (sample_message 1 None 0)
   \<and> effects (handle sample_resolve (sample_exhausted 1)
        (Message (sample_env 0) (sample_message 1 None 0)))
       = [Invoke (get_context sample_resolve (sample_exhausted 1) (sample_message 1 None 0))]
   \<and> \<not> is_blocked
         (state_of (handle sample_resolve (sample_exhausted 1)
            (Message (sample_env 0) (sample_message 1 None 0)))) 1"
proof -
  let ?ems = "[(sample_env 0, sample_message 1 None 0)]"
  have h1: "owner_id (sample_exhausted 1) = Some 1"
    by (simp add: sample_exhausted_def sample_bot_def setup_hook_def)
  have h2: "\<forall>p\<in>set ?ems. user_id (author (snd p)) = 1 \<and> \<not> is_bot (author (snd p))"
    by (simp add: sample_message_def)
  have h3: "\<forall>s. \<forall>p\<in>set ?ems. ctx_command (sample_resolve s (snd p)) \<noteq> None"
    by (simp add: sample_resolve_def)
  have h4: "\<not> is_blocked (sample_exhausted 1) 1"
    by (simp add: sample_exhausted_def sample_bot_def setup_hook_def graha_init_def
        is_blocked_def config_contains_def)
  have h5: "\<forall>p\<in>set ?ems. \<forall>g. guild (snd p) = Some g \<longrightarrow> \<not> is_blocked (sample_exhausted 1) g"
    by (simp add: sample_message_def)
  have h6: "(0::nat) < length ?ems"
    by simp
  have t: "throttled (sample_env 0) (sample_exhausted 1) (sample_message 1 None 0)"
    by (simp add: throttled_def rate_check_def sample_exhausted_def sample_message_def
        sample_env_def verify_cache_integrity_def update_rate_limit_def in_window_def
        truthy_def Let_def)
  from owner_exempt [OF h1 h2 h3 h4 h5 h6 refl refl refl refl] h1 t show ?thesis
    by simp
qed

section \<open>Evaluating the samples\<close>

lemmas sample_defs = sample_exhausted_def sample_bot_def setup_hook_def graha_init_def
  sample_message_def sample_resolve_def sample_env_def sample_bot_message_def

lemmas pipeline_defs = on_message_def process_commands_def get_context_def ctx_author_def
  ctx_guild_def config_contains_def config_put_def get_bucket_def verify_cache_integrity_def
  from_cooldown_def update_rate_limit_def in_window_def log_spammer_def blacklist_add_def
  is_blocked_def throttled_def rate_check_def truthy_def violations_def reaches_limiter_def
  checked_event_def throttled_event_def clean_event_def

lemma replicate5: "replicate 5 x = [x, x, x, x, x]"
  by (simp add: numeral_eq_Suc)

lemma replicate11: "replicate 11 x = [x, x, x, x, x, x, x, x, x, x, x]"
  by (simp add: numeral_eq_Suc)

section \<open>Escalation\<close>

lemma state_after_append:
  "state_after resolve self (xs @ ys) = state_after resolve (state_after resolve self xs) ys"
  by (induction xs arbitrary: self) simp_all

lemma effects_of_append:
  "effects_of resolve self (xs @ ys) =
     effects_of resolve self xs @ effects_of resolve (state_after resolve self xs) ys"
  by (induction xs arbitrary: self) simp_all

lemma count_events_append:
  "count_events P resolve self (xs @ ys) =
     count_events P resolve self xs + count_events P resolve (state_after resolve self xs) ys"
  by (induction xs arbitrary: self) simp_all

lemma throttledD: "throttled e self m \<Longrightarrow> \<exists>r. fst (rate_check e self m) = Some r \<and> r \<noteq> 0"
  by (auto simp add: throttled_def truthy_def split: option.splits)

text \<open>While a caller stays on the blocklist, no event causes an autoblock notice for it.\<close>

lemma no_autoblock_while_blocked:
  assumes "is_blocked self a" and "BlacklistRemove a \<notin> set evs"
  shows "filter (is_autoblock a) (concat (effects_of resolve self evs)) = []"
  using assms
proof (induction evs arbitrary: self)
  case Nil
  then show ?case by simp
next
  case (Cons ev evs)
  have here: "filter (is_autoblock a) (effects (handle resolve self ev)) = []"
  proof (cases "command_message (owner_id self) ev")
    case None
    then show ?thesis
      by (simp add: handle_no_command_message)
  next
    case (Some p)
    obtain e m where p: "p = (e, m)" by (cases p)
    show ?thesis
    proof (cases "user_id (author m) = a")
      case True
      then show ?thesis
        using Cons.prems(1) Some p
        by (simp add: handle_command_message pc_blocked_author)
    next
      case False
      then show ?thesis
        using Some p by (simp add: handle_command_message pc_autoblock_author)
    qed
  qed
  have "is_blocked (state_of (handle resolve self ev)) a"
    using Cons.prems by (intro handle_keeps_blocked) auto
  then have "filter (is_autoblock a)
               (concat (effects_of resolve (state_of (handle resolve self ev)) evs)) = []"
    using Cons.prems by (intro Cons.IH) simp_all
  with here show ?case by simp
qed

text \<open>
  Fewer than five throttled events of the caller, none of them clean, with any other
  events between them: the count goes up by their number and no autoblock happens.
\<close>

lemma streak_prefix:
  assumes "owner_id self \<noteq> Some a"
    and "violations self a = v" and "0 \<le> v"
    and "count_events (clean_event resolve a) resolve self evs = 0"
    and "count_events (throttled_event resolve a) resolve self evs = k"
    and "v + int k < 5"
  shows "violations (state_after resolve self evs) a = v + int k
         \<and> filter (is_autoblock a) (concat (effects_of resolve self evs)) = []"
  using assms
proof (induction evs arbitrary: self v k)
  case Nil
  then show ?case by simp
next
  case (Cons ev evs)
  let ?s = "state_of (handle resolve self ev)"
  let ?k' = "count_events (throttled_event resolve a) resolve ?s evs"
  have o: "owner_id ?s \<noteq> Some a"
    using Cons.prems(1) by (simp add: handle_owner_id)
  have clean_here: "\<not> clean_event resolve a self ev"
    and clean_rest: "count_events (clean_event resolve a) resolve ?s evs = 0"
    using Cons.prems(4) by (simp_all split: if_splits)
  have k: "k = (if throttled_event resolve a self ev then 1 else 0) + ?k'"
    using Cons.prems(5) by simp
  \<comment> \<open>what the event does to the count of the caller\<close>
  have step: "violations ?s a = v + (if throttled_event resolve a self ev then 1 else 0)
              \<and> filter (is_autoblock a) (effects (handle resolve self ev)) = []"
  proof (cases "command_message (owner_id self) ev")
    case None
    then show ?thesis
      using Cons.prems(2)
      by (simp add: handle_no_command_message throttled_event_def violations_def)
  next
    case (Some p)
    obtain e m where p: "p = (e, m)" by (cases p)
    have h: "handle resolve self ev = process_commands resolve e self m"
      using Some p by (simp add: handle_command_message)
    show ?thesis
    proof (cases "user_id (author m) = a")
      case False
      then show ?thesis
        using Cons.prems(2) Some p process_commands_frame [OF False, of resolve e self]
        by (simp add: h throttled_event_def violations_def pc_autoblock_author)
    next
      case True
      show ?thesis
      proof (cases "reaches_limiter resolve self m")
        case False
        then show ?thesis
          using Cons.prems(2) Some p True
          by (simp add: h throttled_event_def pc_unreached)
      next
        case reach: True
        have thr: "throttled e self m"
          using clean_here Some p True reach by (simp add: clean_event_def)
        then obtain r where r: "fst (rate_check e self m) = Some r" "r \<noteq> 0"
          by (auto dest: throttledD)
        have te: "throttled_event resolve a self ev"
          using Some p True reach thr by (simp add: throttled_event_def)
        have own: "Some (user_id (author m)) \<noteq> owner_id self"
          using Cons.prems(1) True by auto
        have small: "violations self (user_id (author m)) + 1 < 5"
          using Cons.prems(2,6) k te True by simp
        show ?thesis
          using pc_throttled [OF reach r own small] Cons.prems(2) True te
          by (simp add: h violations_def)
      qed
    qed
  qed
  have IH: "violations (state_after resolve ?s evs) a
              = (v + (if throttled_event resolve a self ev then 1 else 0)) + int ?k'
         \<and> filter (is_autoblock a) (concat (effects_of resolve ?s evs)) = []"
    using o step clean_rest Cons.prems(3,6) k
    by (intro Cons.IH) (simp_all split: if_splits)
  with step k show ?case
    by (simp split: if_splits)
qed

text \<open>
  C3 (for a caller other than the owner; the counter entry when the notice is sent).
  In any list of events, with other callers' events, administrative calls and messages
  that never reach the rate limiter in between: when the count of a caller starts at 0,
  the events before have held four events of the caller that the rate limiter throttled
  and no clean one, and the next such event arrives, then no autoblock has happened
  before it, the caller is blocked after it, the caller's entry of the violation counter
  is gone once the send of the notice has returned, and the whole list, with any later
  events that do not take the caller off the blocklist, contains exactly one autoblock
  notice for the caller. And a message that reaches the limiter and is not throttled
  leaves its author with a violation count of 0, whoever the author is.
\<close>

theorem escalation:
  assumes "owner_id self \<noteq> Some a"
    and "violations self a = 0"
    and "count_events (clean_event resolve a) resolve self pre = 0"
    and "count_events (throttled_event resolve a) resolve self pre = 4"
    and "s = state_after resolve self pre"
    and "user_id (author m) = a" and "\<not> is_bot (author m)"
    and "reaches_limiter resolve s m" and "throttled e s m"
    and "BlacklistRemove a \<notin> set later"
  shows "filter (is_autoblock a) (concat (effects_of resolve self pre)) = []
         \<and> is_blocked (state_after resolve self (pre @ [Message e m])) a
         \<and> (webhook_up e \<longrightarrow>
              spammer_count (state_after resolve self (pre @ [Message e m])) a = None)
         \<and> length (filter (is_autoblock a)
              (concat (effects_of resolve self (pre @ Message e m # later)))) = 1
         \<and> (\<forall>e' s' m'. reaches_limiter resolve s' m' \<and> \<not> throttled e' s' m' \<longrightarrow>
               violations (state_of (process_commands resolve e' s' m')) (user_id (author m')) = 0)"
proof -
  have pre: "violations s a = 4"
    "filter (is_autoblock a) (concat (effects_of resolve self pre)) = []"
    using streak_prefix [OF assms(1) assms(2) _ assms(3) assms(4)] by (simp_all add: assms(5))
  have own: "Some (user_id (author m)) \<noteq> owner_id s"
    using assms(1,6) by (auto simp add: assms(5) state_after_owner_id)
  from assms(9) obtain r where r: "fst (rate_check e s m) = Some r" "r \<noteq> 0"
    by (auto dest: throttledD)
  have five: "5 \<le> violations s (user_id (author m)) + 1"
    using pre(1) assms(6) by simp
  let ?s5 = "state_of (on_message resolve e s m)"
  have step: "effects (on_message resolve e s m)
                = [LogWarning a (guild m) r, WebhookAutoblock a (guild m) (channel m)]
              \<and> is_blocked ?s5 a
              \<and> (webhook_up e \<longrightarrow> spammer_count ?s5 a = None)"
  proof (cases "webhook_up e")
    case True
    then show ?thesis
      using pc_autoblock [OF assms(8) r own five True] assms(6,7)
      by (simp add: on_message_def is_blocked_def config_contains_put)
  next
    case False
    then show ?thesis
      using pc_autoblock_failed [OF assms(8) r own five False] assms(6,7)
      by (simp add: on_message_def is_blocked_def config_contains_put)
  qed
  have final: "state_after resolve self (pre @ [Message e m]) = ?s5"
    by (simp add: state_after_append assms(5))
  have blocked: "is_blocked (state_after resolve self (pre @ [Message e m])) a"
    using step by (simp add: final)
  have gone: "webhook_up e \<longrightarrow>
              spammer_count (state_after resolve self (pre @ [Message e m])) a = None"
    using step by (simp add: final)
  have later: "filter (is_autoblock a) (concat (effects_of resolve ?s5 later)) = []"
    using step assms(10) by (intro no_autoblock_while_blocked) simp_all
  have once: "length (filter (is_autoblock a)
              (concat (effects_of resolve self (pre @ Message e m # later)))) = 1"
    using pre(2) step later by (simp add: effects_of_append assms(5) [symmetric])
  have clean: "\<forall>e' s' m'. reaches_limiter resolve s' m' \<and> \<not> throttled e' s' m' \<longrightarrow>
               violations (state_of (process_commands resolve e' s' m')) (user_id (author m')) = 0"
    by (simp add: pc_clean violations_def)
  from pre(2) blocked gone once clean show ?thesis
    by blast
qed

theorem escalation_witness:
  "owner_id (sample_exhausted 2) \<noteq> Some 2
   \<and> violations (sample_exhausted 2) 2 = 0
   \<and> count_events (clean_event sample_resolve 2) sample_resolve (sample_exhausted 2)
        sample_mixed = 0
   \<and> count_events (throttled_event sample_resolve 2) sample_resolve (sample_exhausted 2)
        sample_mixed = 4
   \<and> throttled (sample_env 1)
        (state_after sample_resolve (sample_exhausted 2) sample_mixed) (sample_message 2 None 1)
   \<and> is_blocked
        (state_after sample_resolve (sample_exhausted 2)
           (sample_mixed @ [Message (sample_env 1) (sample_message 2 None 1)])) 2
   \<and> spammer_count
        (state_after sample_resolve (sample_exhausted 2)
           (sample_mixed @ [Message (sample_env 1) (sample_message 2 None 1)])) 2 = None
   \<and> length (filter (is_autoblock 2)
        (concat (effects_of sample_resolve (sample_exhausted 2)
           (sample_mixed @ Message (sample_env 1) (sample_message 2 None 1)
              # [Message (sample_env 2) (sample_message 2 None 2),
                 Message (sample_env 2) (sample_message 3 None 2)])))) = 1
   \<and> reaches_limiter sample_resolve sample_bot (sample_message 2 None 0)
   \<and> \<not> throttled (sample_env 0) sample_bot (sample_message 2 None 0)
   \<and> violations (state_of (process_commands sample_resolve (sample_env 0) sample_bot
        (sample_message 2 None 0))) 2 = 0"
proof -
  let ?later = "[Message (sample_env 2) (sample_message 2 None 2),
                 Message (sample_env 2) (sample_message 3 None 2)]"
  have h1: "owner_id (sample_exhausted 2) \<noteq> Some 2"
    by (simp add: sample_defs)
  have h2: "violations (sample_exhausted 2) 2 = 0"
    by (simp add: sample_defs violations_def)
  have h3: "count_events (clean_event sample_resolve 2) sample_resolve (sample_exhausted 2)
        sample_mixed = 0"
    by (simp add: sample_mixed_def sample_defs pipeline_defs Let_def)
  have h4: "count_events (throttled_event sample_resolve 2) sample_resolve (sample_exhausted 2)
        sample_mixed = 4"
    by (simp add: sample_mixed_def sample_defs pipeline_defs Let_def)
  have h6: "user_id (author (sample_message 2 None 1)) = 2"
    and h7: "\<not> is_bot (author (sample_message 2 None 1))"
    by (simp_all add: sample_message_def)
  have h8: "reaches_limiter sample_resolve
              (state_after sample_resolve (sample_exhausted 2) sample_mixed)
              (sample_message 2 None 1)"
    by (simp add: sample_mixed_def sample_defs pipeline_defs Let_def)
  have h9: "throttled (sample_env 1)
              (state_after sample_resolve (sample_exhausted 2) sample_mixed)
              (sample_message 2 None 1)"
    by (simp add: sample_mixed_def sample_defs pipeline_defs Let_def)
  have h10: "BlacklistRemove 2 \<notin> set ?later"
    by simp
  have up: "webhook_up (sample_env 1)"
    by (simp add: sample_env_def)
  have c1: "reaches_limiter sample_resolve sample_bot (sample_message 2 None 0)"
    by (simp add: sample_defs pipeline_defs)
  have c2: "\<not> throttled (sample_env 0) sample_bot (sample_message 2 None 0)"
    by (simp add: sample_defs pipeline_defs Let_def)
  have u: "user_id (author (sample_message 2 None 0)) = 2"
    by (simp add: sample_message_def)
  note E = escalation [OF h1 h2 h3 h4 refl h6 h7 h8 h9 h10]
  from E c1 c2 have
    "violations (state_of (process_commands sample_resolve (sample_env 0) sample_bot
        (sample_message 2 None 0))) (user_id (author (sample_message 2 None 0))) = 0"
    by blast
  with E h1 h2 h3 h4 h9 up c1 c2 u show ?thesis
    by simp
qed

theorem escalation_owner_counterexample:
  "owner_id (sample_exhausted 1) = Some 1
   \<and> violations (sample_exhausted 1) 1 = 0
   \<and> count_events (throttled_event sample_resolve 1) sample_resolve (sample_exhausted 1)
        (sample_burst 1) = 5
   \<and> count_events (clean_event sample_resolve 1) sample_resolve (sample_exhausted 1)
        (sample_burst 1) = 0
   \<and> \<not> is_blocked (state_after sample_resolve (sample_exhausted 1) (sample_burst 1)) 1"
  by (simp add: sample_burst_def replicate5 sample_defs pipeline_defs Let_def)

section \<open>The window\<close>

lemma caller_messages_Nil [simp]: "caller_messages owner a [] = []"
  by (simp add: caller_messages_def List.map_filter_simps)






lemma has_room_None [simp]: "has_room None ms"
  by (simp add: has_room_def)



















section \<open>Prefix resolution\<close>

lemma callable_prefix_guild:
  assumes "guild m = Some g" and "display_name (author m) = c # cs"
  shows "callable_prefix casefold self m =
           Inr (user_mentions self
                @ (case prefix_data self g of
                     None \<Rightarrow> [''gt '']
                   | Some qs \<Rightarrow> if qs = [] then [''gt ''] else qs)
                @ [casefold c @ '' ''])"
  using assms
  by (simp add: callable_prefix_def when_mentioned_or_def config_get_def Let_def)

text \<open>
  C6. For a message sent in a guild by an author whose display name has a first
  character: the result is the stored prefixes of the guild, or the default \<^verbatim>\<open>"gt "\<close> when
  none are stored or the stored list is empty, together with the mention forms and the
  prefix derived from the author (the case-folded first character and a space). The
  mention forms and the author's prefix are in the result whatever is stored; with no
  custom prefixes the default is in it as well.
\<close>

theorem callable_prefix_grouped:
  assumes "guild m = Some g" and "display_name (author m) = c # cs"
  shows "\<exists>ps. callable_prefix casefold self m = Inr ps
           \<and> ps = when_mentioned_or self
                    ((case config_get (prefix_data self) g of
                        None \<Rightarrow> [''gt '']
                      | Some qs \<Rightarrow> if qs = [] then [''gt ''] else qs)
                     @ [casefold c @ '' ''])
           \<and> set (user_mentions self) \<subseteq> set ps
           \<and> casefold c @ '' '' \<in> set ps
           \<and> (config_get (prefix_data self) g = None \<or> config_get (prefix_data self) g = Some []
                \<longrightarrow> ''gt '' \<in> set ps)
           \<and> (\<forall>qs. config_get (prefix_data self) g = Some qs \<and> qs \<noteq> [] \<longrightarrow> set qs \<subseteq> set ps)"
  using callable_prefix_guild [OF assms, of casefold self]
  by (auto simp add: when_mentioned_or_def config_get_def)

theorem callable_prefix_grouped_witness:
  "guild sample_guild_message = Some 40
   \<and> display_name (author sample_guild_message) = ''Graha''
   \<and> callable_prefix ascii_casefold sample_bot sample_guild_message
       = Inr [''<@99> '', ''<@!99> '', ''gt '', ''g '']"
proof -
  have h1: "guild sample_guild_message = Some 40"
    by (simp add: sample_guild_message_def sample_message_def)
  have h2: "display_name (author sample_guild_message) = CHR ''G'' # ''raha''"
    by (simp add: sample_guild_message_def sample_message_def)
  have none: "config_get (prefix_data sample_bot) 40 = None"
    by (simp add: config_get_def sample_bot_def setup_hook_def graha_init_def)
  have fold: "ascii_casefold CHR ''G'' = ''g''"
    by code_simp
  have mentions: "user_mentions sample_bot = [''<@99> '', ''<@!99> '']"
    by (simp add: sample_bot_def setup_hook_def graha_init_def)
  from callable_prefix_grouped [OF h1 h2, of ascii_casefold sample_bot] h1 h2 show ?thesis
    by (auto simp add: none fold when_mentioned_or_def mentions)
qed

text \<open>After clearing, the raw getter returns the stored empty list, not the default.\<close>

lemma raw_prefixes_after_clear:
  "get_guild_prefixes_raw (snd (set_guild_prefixes self g (Some []))) g = []"
  by (simp add: get_guild_prefixes_raw_def set_guild_prefixes_def config_get_default_def
      config_put_def)

text \<open>
  C5. \<^verbatim>\<open>_set_guild_prefixes\<close> with more than 10 prefixes raises and leaves the bot, and
  with it the stored prefixes of every guild, as it was. With an empty list it returns
  normally, and afterwards the prefixes resolved for a message of that guild are the
  mention forms, the default \<^verbatim>\<open>"gt "\<close> and the author's prefix.
\<close>

theorem set_guild_prefixes_limit:
  "(10 < length ps \<longrightarrow>
      set_guild_prefixes self g (Some ps)
        = (Inl (TooManyArguments ''Cannot have more than 10 custom prefixes.''), self))
   \<and> fst (set_guild_prefixes self g (Some [])) = Inr ()
   \<and> (guild m = Some g \<and> display_name (author m) = c # cs \<longrightarrow>
        callable_prefix casefold (snd (set_guild_prefixes self g (Some []))) m
          = Inr (when_mentioned_or self [''gt '', casefold c @ '' '']))"
proof (intro conjI impI)
  assume "10 < length ps"
  then show "set_guild_prefixes self g (Some ps)
        = (Inl (TooManyArguments ''Cannot have more than 10 custom prefixes.''), self)"
    by (auto simp add: set_guild_prefixes_def)
next
  show "fst (set_guild_prefixes self g (Some [])) = Inr ()"
    by (simp add: set_guild_prefixes_def)
next
  assume "guild m = Some g \<and> display_name (author m) = c # cs"
  then show "callable_prefix casefold (snd (set_guild_prefixes self g (Some []))) m
          = Inr (when_mentioned_or self [''gt '', casefold c @ '' ''])"
    by (simp add: callable_prefix_guild set_guild_prefixes_def config_put_def
        when_mentioned_or_def)
qed

theorem set_guild_prefixes_limit_witness:
  "10 < length sample_prefixes
   \<and> set_guild_prefixes sample_bot 40 (Some sample_prefixes)
       = (Inl (TooManyArguments ''Cannot have more than 10 custom prefixes.''), sample_bot)
   \<and> guild sample_guild_message = Some 40
   \<and> display_name (author sample_guild_message) = ''Graha''
   \<and> callable_prefix ascii_casefold (snd (set_guild_prefixes sample_bot 40 (Some [])))
        sample_guild_message
       = Inr (when_mentioned_or sample_bot [''gt '', ascii_casefold CHR ''G'' @ '' ''])"
proof -
  have h1: "10 < length sample_prefixes"
    by (simp add: sample_prefixes_def)
  have h2: "guild sample_guild_message = Some 40
            \<and> display_name (author sample_guild_message) = CHR ''G'' # ''raha''"
    by (simp add: sample_guild_message_def sample_message_def)
  from set_guild_prefixes_limit
         [of sample_prefixes sample_bot 40 sample_guild_message "CHR ''G''" "''raha''"
             ascii_casefold]
       h1 h2
  show ?thesis
    by simp
qed

section \<open>Edits\<close>

text \<open>
  C8 (as the code has it). An edit is processed as a command exactly when its author is
  the owner and it is not the appearance of embeds on a message that had none; it then
  goes through \<^verbatim>\<open>process_commands\<close> like a new message. Every other edit has no effect
  and changes nothing.
\<close>

theorem edit_reprocessed:
  "(Some (user_id (author after)) = owner_id self
      \<and> \<not> (embeds before = [] \<and> embeds after \<noteq> []) \<longrightarrow>
     on_message_edit resolve e self before after = process_commands resolve e self after)
   \<and> (Some (user_id (author after)) \<noteq> owner_id self
      \<or> (embeds before = [] \<and> embeds after \<noteq> []) \<longrightarrow>
     on_message_edit resolve e self before after = (None, [], self))
   \<and> (filter is_invoke (effects (on_message_edit resolve e self before after)) \<noteq> [] \<longrightarrow>
     Some (user_id (author after)) = owner_id self
     \<and> \<not> (embeds before = [] \<and> embeds after \<noteq> []))"
  by (auto simp add: on_message_edit_def)

theorem edit_reprocessed_witness:
  "Some (user_id (author sample_embedded)) = owner_id sample_bot
   \<and> on_message_edit sample_resolve (sample_env 0) sample_bot sample_embedded sample_embedded
       = process_commands sample_resolve (sample_env 0) sample_bot sample_embedded
   \<and> Some (user_id (author (sample_message 2 None 0))) \<noteq> owner_id sample_bot
   \<and> on_message_edit sample_resolve (sample_env 0) sample_bot
        (sample_message 2 None 0) (sample_message 2 None 0)
       = (None, [], sample_bot)"
proof -
  have h1: "Some (user_id (author sample_embedded)) = owner_id sample_bot
            \<and> \<not> (embeds sample_embedded = [] \<and> embeds sample_embedded \<noteq> [])"
    by (simp add: sample_embedded_def sample_message_def sample_bot_def setup_hook_def)
  have h2: "Some (user_id (author (sample_message 2 None 0))) \<noteq> owner_id sample_bot"
    by (simp add: sample_message_def sample_bot_def setup_hook_def)
  from edit_reprocessed [of sample_embedded sample_bot sample_embedded sample_resolve
         "sample_env 0"]
       edit_reprocessed [of "sample_message 2 None 0" sample_bot "sample_message 2 None 0"
         sample_resolve "sample_env 0"]
       h1 h2
  show ?thesis
    by simp
qed

theorem edit_with_embeds_counterexample:
  "Some (user_id (author sample_embedded)) = owner_id sample_bot
   \<and> embeds sample_embedded \<noteq> []
   \<and> effects (on_message_edit sample_resolve (sample_env 0) sample_bot
        sample_embedded sample_embedded)
       = [Invoke (get_context sample_resolve sample_bot sample_embedded)]"
  by (simp add: on_message_edit_def sample_embedded_def sample_defs pipeline_defs Let_def)

section \<open>Internal errors\<close>

text \<open>
  Whatever the context and the exception, the branch for \<^verbatim>\<open>CommandInvokeError\<close> sends no
  reply and nothing to the webhook.
\<close>

lemma invoke_error_silent:
  "filter is_reply (fst (snd (on_command_error self now ctx (CommandInvokeError e)))) = []
   \<and> filter is_webhook_diagnostic
        (fst (snd (on_command_error self now ctx (CommandInvokeError e)))) = []"
  by (simp add: on_command_error_def Let_def split: option.splits)

text \<open>
  The path for the other error classes is the one that sends the embed with the ray id
  to the webhook and the reply that quotes it.
\<close>

lemma other_error_reported:
  assumes "\<not> exc_handled ctx" and "ctx_command ctx = Some name"
  shows "on_command_error self now ctx (OtherCommandError e) =
           (None,
            [AddReaction (ctx_message ctx),
             WebhookCommandError name (user_id (ctx_author ctx)) (ray_id ctx),
             Send (CHR 0x0A # ''Quote 'Ray ID: '' @ ray_id ctx @ ''' if contacting the developer.'')],
            self)"
  using assms by (simp add: on_command_error_def Let_def)

text \<open>
  C4 at an exception raised inside the command \<^verbatim>\<open>ping\<close>: the handler adds the reaction,
  writes one log record with the ray id, and returns. No reply is sent to the caller and
  nothing is sent to the operator's webhook.
\<close>

theorem internal_error_effects:
  "on_command_error sample_bot 0 (sample_resolve sample_bot (sample_message 2 None 0))
     (CommandInvokeError (OtherException ''ValueError''))
     = (None, [AddReaction (sample_message 2 None 0), LogException ''ping'' ''ray-1''], sample_bot)
   \<and> filter is_reply (fst (snd (on_command_error sample_bot 0
        (sample_resolve sample_bot (sample_message 2 None 0))
        (CommandInvokeError (OtherException ''ValueError''))))) = []
   \<and> filter is_webhook_diagnostic (fst (snd (on_command_error sample_bot 0
        (sample_resolve sample_bot (sample_message 2 None 0))
        (CommandInvokeError (OtherException ''ValueError''))))) = []"
  by (simp add: on_command_error_def sample_resolve_def Let_def)

end
